theory Spec2Isabelle
  imports Main "HOL-Library.Word"
begin

section \<open>Data of recv.go\<close>

text \<open>
  The receiver of rtlamr (\<^verbatim>\<open>recv.go\<close>): a splitter goroutine copies the sample
  stream of the rtl\_tcp connection into one or two in-process pipes, and one looper
  goroutine per parser reads fixed-size blocks from its pipe, decodes them, filters the
  packets, logs the accepted ones and appends the raw samples to the sample file.

  Packages \<^verbatim>\<open>parse\<close>, \<^verbatim>\<open>scm\<close>, \<^verbatim>\<open>idm\<close>, \<^verbatim>\<open>r900\<close>, the flag handling and the
  encoders are outside \<^verbatim>\<open>recv.go\<close>; what the receiver calls of them is taken as a
  parameter (records of functions below).
\<close>

type_synonym byte = "8 word"

text \<open>Go's \<^verbatim>\<open>int\<close> on the 64-bit targets: shifts wrap around.\<close>

type_synonym go_int = "64 word"

text \<open>The fields of \<^verbatim>\<open>parse.Config\<close> that \<^verbatim>\<open>Run\<close> reads.\<close>

record config =
  BlockSize2 :: nat
  BufferLength :: go_int

text \<open>\<^verbatim>\<open>parse.LogMessage\<close> as filled in at lines 174-178.\<close>

record 'pkt LogMessage =
  Time :: nat
  Offset :: int
  Length :: go_int
  Message :: 'pkt

text \<open>
  The calls a looper makes on the log and on the sample file, in program order, each
  with its result: \<^verbatim>\<open>encoder.Encode(msg)\<close> that returned no error or an error,
  \<^verbatim>\<open>fmt.Fprintln(logFile)\<close>, \<^verbatim>\<open>sampleFile.Write(p.Dec().IQ)\<close> that returned no error
  or an error, and the \<^verbatim>\<open>fmt.Println\<close> of the time limit.
\<close>

datatype 'pkt action =
    ActEncode "'pkt LogMessage"
  | ActEncodeErr "'pkt LogMessage" string
  | ActNewline
  | ActWrite "byte list"
  | ActWriteErr "byte list" string
  | ActTimeLimit int

text \<open>
  \<^verbatim>\<open>sampleFile\<close>, a regular file: its bytes, the position of the descriptor, and the
  error its next \<^verbatim>\<open>Write\<close> returns, if any.
\<close>

record sample_file =
  contents :: "byte list"
  pos :: nat
  wr_err :: "string option"

text \<open>\<^verbatim>\<open>sampleFile.Seek(0, os.SEEK_CUR)\<close>; the source drops the error.\<close>

definition file_Seek_cur :: "sample_file \<Rightarrow> int" where
  "file_Seek_cur f = int (pos f)"

text \<open>
  \<^verbatim>\<open>sampleFile.Write(d)\<close>: the bytes go to the position of the descriptor (a hole
  before it reads as zeros), and the position advances.
\<close>

definition file_Write :: "sample_file \<Rightarrow> byte list \<Rightarrow> string option \<times> sample_file" where
  "file_Write f d =
     (case wr_err f of
        Some e \<Rightarrow> (Some e, f)
      | None \<Rightarrow>
          (None,
           f\<lparr>contents :=
                take (pos f) (contents f @ replicate (pos f - length (contents f)) 0)
                @ d @ drop (pos f + length d) (contents f),
             pos := pos f + length d\<rparr>))"

text \<open>
  The state shared by the loopers: the sample file, \<^verbatim>\<open>meterID.UintMap\<close> (the set of
  its keys: the looper reads its \<^verbatim>\<open>len\<close> and deletes keys, nothing else), the state of
  the filter chain, the wall clock (the reading of the k-th call of
  \<^verbatim>\<open>time.Now\<close>, and the number of calls so far) and the calls made so far.
\<close>

record ('pkt, 'fs) world =
  sampleFile :: sample_file
  uintMap :: "nat set"
  fcs :: 'fs
  wall :: "nat \<Rightarrow> nat"
  wall_reads :: nat
  effects :: "'pkt action list"

definition time_Now :: "('pkt, 'fs) world \<Rightarrow> nat \<times> ('pkt, 'fs) world" where
  "time_Now w = (wall w (wall_reads w), w\<lparr>wall_reads := Suc (wall_reads w)\<rparr>)"

text \<open>
  One end pair of \<^verbatim>\<open>io.Pipe()\<close>: the bytes written and not yet read, and whether the
  write end has been closed. A \<^verbatim>\<open>Write\<close> queues its bytes and is over at once, where
  that of \<^verbatim>\<open>io.Pipe\<close> waits until a reader has taken them; the bytes a reader gets, and
  their order, are the same. A \<^verbatim>\<open>Write\<close> to a closed pipe is an error, which the
  splitter does not look at.
\<close>

record pipe =
  buf :: "byte list"
  closed :: bool

definition io_Pipe :: pipe where
  "io_Pipe = \<lparr>buf = [], closed = False\<rparr>"

definition pipe_Write :: "pipe \<Rightarrow> byte list \<Rightarrow> pipe" where
  "pipe_Write c d = (if closed c then c else c\<lparr>buf := buf c @ d\<rparr>)"

text \<open>
  \<^verbatim>\<open>io.ReadFull(in, block)\<close> with \<^verbatim>\<open>len(block) = n\<close>: the block once n bytes are
  there; an error (\<^verbatim>\<open>EOF\<close>, or \<^verbatim>\<open>unexpected EOF\<close> after a partial block) when the
  write end is closed before that; otherwise the reader stays blocked.
\<close>

datatype read_full = ROk "byte list" pipe | RErr string pipe | RBlocked

definition io_ReadFull :: "pipe \<Rightarrow> nat \<Rightarrow> read_full" where
  "io_ReadFull c n =
     (if n \<le> length (buf c) then ROk (take n (buf c)) (c\<lparr>buf := drop n (buf c)\<rparr>)
      else if closed c then
        RErr (if buf c = [] then ''EOF'' else ''unexpected EOF'') (c\<lparr>buf := []\<rparr>)
      else RBlocked)"

text \<open>The command-line flags that \<^verbatim>\<open>recv.go\<close> reads.\<close>

record flags =
  msgType :: string
  symbolLength :: int
  decimation :: int
  single :: bool
  timeLimit :: int
  sampleFilename :: string

definition os_DevNull :: string where
  "os_DevNull = ''/dev/null''"

text \<open>
  What a looper calls of its parser, of a packet and of the filter chain:
  \<^verbatim>\<open>p.Cfg()\<close>, \<^verbatim>\<open>p.Dec().Decode(block)\<close>, \<^verbatim>\<open>p.Parse(indices)\<close>, \<^verbatim>\<open>p.Dec().IQ\<close>,
  \<^verbatim>\<open>pkt.MeterID()\<close> and \<^verbatim>\<open>fc.Match(pkt)\<close>. The chain reads \<^verbatim>\<open>meterID.UintMap\<close>
  and has a state of its own.
\<close>

record ('ps, 'pkt, 'fs) caps =
  Cfg :: "'ps \<Rightarrow> config"
  Decode :: "'ps \<Rightarrow> byte list \<Rightarrow> nat list \<times> 'ps"
  Parse :: "'ps \<Rightarrow> nat list \<Rightarrow> 'pkt list \<times> 'ps"
  IQ :: "'ps \<Rightarrow> byte list"
  MeterID :: "'pkt \<Rightarrow> nat"
  Match :: "'fs \<Rightarrow> nat set \<Rightarrow> 'pkt \<Rightarrow> bool \<times> 'fs"

text \<open>
  The global \<^verbatim>\<open>encoder\<close>: whether its dynamic type is \<^verbatim>\<open>*xml.Encoder\<close> (the type
  assertion of line 187) and the error \<^verbatim>\<open>Encode\<close> returns for a message, if any.

  Modelled from the spec: \<open>delimits\<close>, whether the encoder's format natively delimits
  records. The source has no such query; the field is read by no definition of the
  code below.
\<close>

record 'pkt encoder =
  is_xml :: bool
  Encode :: "'pkt LogMessage \<Rightarrow> string option"
  delimits :: bool

section \<open>The looper\<close>

text \<open>
  The calls of \<^verbatim>\<open>log.Fatal\<close> and \<^verbatim>\<open>log.Fatalf\<close> of \<^verbatim>\<open>recv.go\<close>, each with the error or
  value it prints; the process exits after printing.
\<close>

datatype fatal =
    InvalidMessageType string
  | ConnectError string
  | ErrorReadingSamples string
  | ErrorEncodingMessage string
  | ErrorWritingRawSamples string

text \<open>Why a looper returned (the three \<^verbatim>\<open>return\<close>s of lines 155, 158 and 209).\<close>

datatype reason = Interrupted | DeadlineReached | CompletionSetEmpty

text \<open>
  One pass of the \<^verbatim>\<open>for\<close> loop: the loop goes on, the looper returns, \<^verbatim>\<open>log.Fatal\<close>
  prints its message and exits the process, or the looper stays blocked in
  \<^verbatim>\<open>io.ReadFull\<close>.
\<close>

datatype 'a outcome = Continue 'a | Return reason 'a | Fatal fatal 'a | Blocked 'a

text \<open>
  What the \<^verbatim>\<open>select\<close> of a pass finds: a signal waiting on \<^verbatim>\<open>sigint\<close>, the timer of
  \<^verbatim>\<open>time.After\<close> fired, and the case the runtime picks when both are ready.
\<close>

record env =
  sigint :: bool
  tLimit :: bool
  pick_sigint :: bool

text \<open>Lines 174-178: the message of an accepted packet.\<close>

definition new_msg ::
  "go_int \<Rightarrow> 'pkt \<Rightarrow> ('pkt, 'fs) world \<Rightarrow> 'pkt LogMessage \<times> ('pkt, 'fs) world" where
  "new_msg bl pkt w =
     (case time_Now w of
        (t, w') \<Rightarrow>
          (\<lparr>Time = t, Offset = file_Seek_cur (sampleFile w'),
            Length = push_bit 1 bl, Message = pkt\<rparr>, w'))"

text \<open>Lines 180-189: encode, fatal on error; a newline after it for the XML encoder.\<close>

definition log_msg ::
  "'pkt encoder \<Rightarrow> 'pkt LogMessage \<Rightarrow> ('pkt, 'fs) world
     \<Rightarrow> (fatal \<times> ('pkt, 'fs) world) + ('pkt, 'fs) world" where
  "log_msg enc msg w =
     (case Encode enc msg of
        Some e \<Rightarrow> Inl (ErrorEncodingMessage e, w\<lparr>effects := effects w @ [ActEncodeErr msg e]\<rparr>)
      | None \<Rightarrow>
          (let w1 = w\<lparr>effects := effects w @ [ActEncode msg]\<rparr>
           in Inr (if is_xml enc then w1\<lparr>effects := effects w1 @ [ActNewline]\<rparr> else w1)))"

text \<open>
  Lines 169-199, the loop over the packets of a block, with \<^verbatim>\<open>pktFound\<close>; \<open>Inl\<close> is
  \<^verbatim>\<open>log.Fatal\<close>. A rejected packet is skipped (\<^verbatim>\<open>continue\<close>); in single mode an
  accepted packet leaves the loop when the map is empty (\<^verbatim>\<open>break\<close>) and is deleted
  from the map otherwise.
\<close>

fun range_pkts ::
  "('ps, 'pkt, 'fs) caps \<Rightarrow> 'pkt encoder \<Rightarrow> flags \<Rightarrow> go_int \<Rightarrow> 'pkt list
     \<Rightarrow> bool \<Rightarrow> ('pkt, 'fs) world \<Rightarrow> (fatal \<times> ('pkt, 'fs) world) + (bool \<times> ('pkt, 'fs) world)" where
  "range_pkts C enc fl bl [] pktFound w = Inr (pktFound, w)"
| "range_pkts C enc fl bl (pkt # pkts) pktFound w =
     (case Match C (fcs w) (uintMap w) pkt of
        (ok, fs') \<Rightarrow>
          (let w0 = w\<lparr>fcs := fs'\<rparr> in
           if \<not> ok then range_pkts C enc fl bl pkts pktFound w0
           else
             (case new_msg bl pkt w0 of
                (msg, w1) \<Rightarrow>
                  (case log_msg enc msg w1 of
                     Inl err \<Rightarrow> Inl err
                   | Inr w2 \<Rightarrow>
                       if single fl then
                         (if uintMap w2 = {} then Inr (True, w2)
                          else range_pkts C enc fl bl pkts True
                                 (w2\<lparr>uintMap := uintMap w2 - {MeterID C pkt}\<rparr>))
                       else range_pkts C enc fl bl pkts True w2))))"

text \<open>
  Lines 201-211, after the packets of a block: the raw samples are written when a
  packet was found and the sample file is not \<^verbatim>\<open>os.DevNull\<close>; the looper returns
  (\<open>True\<close>) in single mode when the map is empty.
\<close>

definition after_block ::
  "flags \<Rightarrow> byte list \<Rightarrow> bool \<Rightarrow> ('pkt, 'fs) world
     \<Rightarrow> (fatal \<times> ('pkt, 'fs) world) + (bool \<times> ('pkt, 'fs) world)" where
  "after_block fl iq pktFound w =
     (if pktFound then
        (if sampleFilename fl \<noteq> os_DevNull then
           (case file_Write (sampleFile w) iq of
              (Some e, sf) \<Rightarrow>
                Inl (ErrorWritingRawSamples e,
                     w\<lparr>sampleFile := sf, effects := effects w @ [ActWriteErr iq e]\<rparr>)
            | (None, sf) \<Rightarrow>
                (let w' = w\<lparr>sampleFile := sf, effects := effects w @ [ActWrite iq]\<rparr>
                 in Inr (single fl \<and> uintMap w' = {}, w')))
         else Inr (single fl \<and> uintMap w = {}, w))
      else Inr (False, w))"

text \<open>
  Lines 166-211, the \<^verbatim>\<open>default\<close> case once a block has been read: decode, parse,
  the loop over the packets, then \<open>after_block\<close>.
\<close>

definition process_block ::
  "('ps, 'pkt, 'fs) caps \<Rightarrow> 'pkt encoder \<Rightarrow> flags \<Rightarrow> byte list \<Rightarrow> 'ps \<Rightarrow> ('pkt, 'fs) world
     \<Rightarrow> (fatal \<times> 'ps \<times> ('pkt, 'fs) world) + (bool \<times> 'ps \<times> ('pkt, 'fs) world)" where
  "process_block C enc fl block ps w =
     (case Decode C ps block of
        (indices, ps1) \<Rightarrow>
          (case Parse C ps1 indices of
             (pkts, ps2) \<Rightarrow>
               (case range_pkts C enc fl (BufferLength (Cfg C ps2)) pkts False w of
                  Inl (err, w1) \<Rightarrow> Inl (err, ps2, w1)
                | Inr (pktFound, w1) \<Rightarrow>
                    (case after_block fl (IQ C ps2) pktFound w1 of
                       Inl (err, w2) \<Rightarrow> Inl (err, ps2, w2)
                     | Inr (ret, w2) \<Rightarrow> Inr (ret, ps2, w2)))))"

text \<open>
  Lines 160-211, the \<^verbatim>\<open>default\<close> case of the \<^verbatim>\<open>select\<close> for a looper whose block has
  \<open>n\<close> bytes (\<^verbatim>\<open>make([]byte, p.Cfg().BlockSize2)\<close>, line 150): read a block, fatal on
  an error, and process it.
\<close>

definition default_case ::
  "('ps, 'pkt, 'fs) caps \<Rightarrow> 'pkt encoder \<Rightarrow> flags \<Rightarrow> nat
     \<Rightarrow> pipe \<times> 'ps \<times> ('pkt, 'fs) world \<Rightarrow> (pipe \<times> 'ps \<times> ('pkt, 'fs) world) outcome" where
  "default_case C enc fl n st =
     (case st of
        (inp, ps, w) \<Rightarrow>
          (case io_ReadFull inp n of
             RBlocked \<Rightarrow> Blocked (inp, ps, w)
           | RErr err inp' \<Rightarrow> Fatal (ErrorReadingSamples err) (inp', ps, w)
           | ROk block inp' \<Rightarrow>
               (case process_block C enc fl block ps w of
                  Inl (err, ps', w') \<Rightarrow> Fatal err (inp', ps', w')
                | Inr (ret, ps', w') \<Rightarrow>
                    if ret then Return CompletionSetEmpty (inp', ps', w')
                    else Continue (inp', ps', w'))))"

text \<open>
  Lines 152-212, one pass of the loop of a looper that was started at \<open>start\<close>: the
  \<^verbatim>\<open>select\<close>, whose timer channel is never ready when \<^verbatim>\<open>*timeLimit\<close> is 0.
\<close>

definition looper_body ::
  "('ps, 'pkt, 'fs) caps \<Rightarrow> 'pkt encoder \<Rightarrow> flags \<Rightarrow> nat \<Rightarrow> nat \<Rightarrow> env
     \<Rightarrow> pipe \<times> 'ps \<times> ('pkt, 'fs) world \<Rightarrow> (pipe \<times> 'ps \<times> ('pkt, 'fs) world) outcome" where
  "looper_body C enc fl start n e st =
     (case st of
        (inp, ps, w) \<Rightarrow>
          (let tl = (timeLimit fl \<noteq> 0 \<and> tLimit e) in
           if sigint e \<and> (if tl then pick_sigint e else True) then Return Interrupted (inp, ps, w)
           else if tl then
             (case time_Now w of
                (t, w') \<Rightarrow>
                  Return DeadlineReached
                    (inp, ps, w'\<lparr>effects := effects w' @ [ActTimeLimit (int t - int start)]\<rparr>))
           else default_case C enc fl n (inp, ps, w)))"

text \<open>The world a pass ends in, whatever its outcome.\<close>

fun outcome_state :: "'a outcome \<Rightarrow> 'a" where
  "outcome_state (Continue st) = st"
| "outcome_state (Return r st) = st"
| "outcome_state (Fatal f st) = st"
| "outcome_state (Blocked st) = st"

fun is_Fatal :: "'a outcome \<Rightarrow> bool" where
  "is_Fatal (Fatal f st) = True"
| "is_Fatal out = False"

text \<open>
  Among a list of calls: the messages encoded, the blocks written, and the calls that
  returned an error.
\<close>

fun encoded :: "'pkt action list \<Rightarrow> 'pkt LogMessage list" where
  "encoded [] = []"
| "encoded (ActEncode m # as) = m # encoded as"
| "encoded (a # as) = encoded as"

fun written :: "'pkt action list \<Rightarrow> byte list list" where
  "written [] = []"
| "written (ActWrite d # as) = d # written as"
| "written (a # as) = written as"

fun failed :: "'pkt action list \<Rightarrow> 'pkt action list" where
  "failed [] = []"
| "failed (ActEncodeErr m e # as) = ActEncodeErr m e # failed as"
| "failed (ActWriteErr d e # as) = ActWriteErr d e # failed as"
| "failed (a # as) = failed as"

text \<open>
  Whether the newlines of a list of calls are those of an encoder that is (\<open>True\<close>)
  or is not (\<open>False\<close>) the XML encoder: a newline right after every message
  encoded, or no newline at all.
\<close>

fun separated :: "bool \<Rightarrow> 'pkt action list \<Rightarrow> bool" where
  "separated x [] = True"
| "separated x (ActEncode m # as) =
     (if x then (case as of ActNewline # as' \<Rightarrow> separated x as' | _ \<Rightarrow> False)
      else separated x as)"
| "separated x (ActNewline # as) = False"
| "separated x (a # as) = separated x as"

text \<open>The calls made between two worlds, the later extending the earlier.\<close>

definition new_acts :: "('pkt, 'fs) world \<Rightarrow> ('pkt, 'fs) world \<Rightarrow> 'pkt action list" where
  "new_acts w w' = drop (length (effects w)) (effects w')"

text \<open>
  A list of calls that only logs: no write, no call that failed, and the newlines of
  the encoder.
\<close>

definition logs_only :: "bool \<Rightarrow> 'pkt action list \<Rightarrow> bool" where
  "logs_only x tr = (written tr = [] \<and> failed tr = [] \<and> separated x tr)"

text \<open>
  The messages encoded in a list of calls carry, in order, the readings of the clock
  from that of world \<open>w\<close> on, the position of the sample file of \<open>w\<close>, and \<open>bl << 1\<close>;
  and the packet of each is one that the filter chain accepts in some state.
\<close>

definition stamped ::
  "('ps, 'pkt, 'fs) caps \<Rightarrow> ('pkt, 'fs) world \<Rightarrow> go_int \<Rightarrow> 'pkt action list \<Rightarrow> bool" where
  "stamped C w bl tr =
     (map Time (encoded tr) =
        map (wall w) [wall_reads w..<wall_reads w + length (encoded tr)] \<and>
      list_all (\<lambda>m. Offset m = file_Seek_cur (sampleFile w) \<and> Length m = push_bit 1 bl \<and>
                     (\<exists>fs ids. fst (Match C fs ids (Message m))))
        (encoded tr))"

section \<open>NewReceiver and Run\<close>

text \<open>The fields \<^verbatim>\<open>p\<close> and \<^verbatim>\<open>q\<close> of \<^verbatim>\<open>Receiver\<close>; \<^verbatim>\<open>q\<close> may be \<^verbatim>\<open>nil\<close>.\<close>

record 'ps receiver =
  rcvr_p :: 'ps
  rcvr_q :: "'ps option"




text \<open>
  Lines 125-134, one pass of the loop of the splitter goroutine on the result
  \<^verbatim>\<open>(tcpBlock[:n], err)\<close> of \<^verbatim>\<open>rcvr.Read\<close>: \<open>None\<close> is the \<^verbatim>\<open>return\<close> on an error;
  otherwise the bytes are written to \<^verbatim>\<open>out\<close>, and to \<^verbatim>\<open>out2\<close> when \<^verbatim>\<open>rcvr.q\<close> is not
  \<^verbatim>\<open>nil\<close>.
\<close>

definition splitter_body ::
  "'ps receiver \<Rightarrow> byte list \<times> string option \<Rightarrow> pipe \<times> pipe \<Rightarrow> (pipe \<times> pipe) option" where
  "splitter_body r rd outs =
     (case rd of
        (chunk, Some e) \<Rightarrow> None
      | (chunk, None) \<Rightarrow>
          (case outs of
             (out, out2) \<Rightarrow>
               Some (pipe_Write out chunk,
                     if rcvr_q r \<noteq> None then pipe_Write out2 chunk else out2)))"

text \<open>
  A looper goroutine, with the length of its block and its parser: at the \<^verbatim>\<open>select\<close>
  of its loop, blocked inside \<^verbatim>\<open>io.ReadFull\<close>, or returned.
\<close>

datatype 'ps task = Running nat 'ps | Reading nat 'ps | Returned reason

datatype which = P | Q

text \<open>
  The state of \<^verbatim>\<open>Run\<close>: the two pipes, whether the splitter is still in its loop, the
  looper of \<^verbatim>\<open>rcvr.p\<close> and, when there is one, that of \<^verbatim>\<open>rcvr.q\<close>, the counter of the
  \<^verbatim>\<open>sync.WaitGroup\<close>, \<^verbatim>\<open>start\<close>, the state the loopers share, and the fatal error
  the process exited with, if it has.
\<close>

record ('ps, 'pkt, 'fs) sys =
  out1 :: pipe
  out2 :: pipe
  splitter_on :: bool
  loop_p :: "'ps task"
  loop_q :: "'ps task option"
  wg :: nat
  start_t :: nat
  shared :: "('pkt, 'fs) world"
  exited :: "fatal option"

text \<open>
  Lines 120-121, 137-138 and 216-221: the pipes, \<^verbatim>\<open>start := time.Now()\<close>, and the
  goroutines with a \<^verbatim>\<open>wg.Add(1)\<close> for each looper.
\<close>

definition Run_spawn ::
  "('ps, 'pkt, 'fs) caps \<Rightarrow> 'ps receiver \<Rightarrow> ('pkt, 'fs) world \<Rightarrow> ('ps, 'pkt, 'fs) sys" where
  "Run_spawn C r w =
     (case time_Now w of
        (t, w') \<Rightarrow>
          \<lparr>out1 = io_Pipe, out2 = io_Pipe, splitter_on = True,
           loop_p = Running (BlockSize2 (Cfg C (rcvr_p r))) (rcvr_p r),
           loop_q = (case rcvr_q r of
                       None \<Rightarrow> None
                     | Some q \<Rightarrow> Some (Running (BlockSize2 (Cfg C q)) q)),
           wg = (case rcvr_q r of None \<Rightarrow> 0 + 1 | Some q \<Rightarrow> 0 + 1 + 1),
           start_t = t, shared = w', exited = None\<rparr>)"

text \<open>Line 223: \<^verbatim>\<open>wg.Wait()\<close> returns when the counter is zero.\<close>

definition wg_Wait_returns :: "('ps, 'pkt, 'fs) sys \<Rightarrow> bool" where
  "wg_Wait_returns s = (wg s = 0)"

text \<open>The pipe a looper reads and the looper, and storing them back.\<close>

definition pass_of :: "which \<Rightarrow> ('ps, 'pkt, 'fs) sys \<Rightarrow> (pipe \<times> 'ps task) option" where
  "pass_of k s =
     (case k of
        P \<Rightarrow> Some (out1 s, loop_p s)
      | Q \<Rightarrow> (case loop_q s of None \<Rightarrow> None | Some t \<Rightarrow> Some (out2 s, t)))"

definition put_pass ::
  "which \<Rightarrow> pipe \<Rightarrow> 'ps task \<Rightarrow> ('ps, 'pkt, 'fs) sys \<Rightarrow> ('ps, 'pkt, 'fs) sys" where
  "put_pass k c t s =
     (case k of
        P \<Rightarrow> s\<lparr>out1 := c, loop_p := t\<rparr>
      | Q \<Rightarrow> s\<lparr>out2 := c, loop_q := Some t\<rparr>)"

text \<open>
  What the scheduler lets happen next: the splitter gets the result of a
  \<^verbatim>\<open>rcvr.Read\<close>, or a looper makes one pass of its loop.
\<close>

datatype event = SrcRead "byte list" "string option" | Pass which env

text \<open>
  The task a looper is after a pass with the given outcome.
\<close>

fun next_task :: "nat \<Rightarrow> (pipe \<times> 'ps \<times> 'w) outcome \<Rightarrow> 'ps task" where
  "next_task n (Continue (c, ps, w)) = Running n ps"
| "next_task n (Blocked (c, ps, w)) = Reading n ps"
| "next_task n (Return rs (c, ps, w)) = Returned rs"
| "next_task n (Fatal f (c, ps, w)) = Running n ps"

fun exit_of :: "'a outcome \<Rightarrow> fatal option" where
  "exit_of (Fatal f st) = Some f"
| "exit_of out = None"

text \<open>
  One event. Nothing happens once the process has exited; a looper that returned
  makes no pass; a looper blocked inside \<^verbatim>\<open>io.ReadFull\<close> goes on from there, not from
  the \<^verbatim>\<open>select\<close>; a looper that returns changes neither the counter of the wait group
  nor a pipe's write end (the body of \<^verbatim>\<open>looper\<close> has no \<^verbatim>\<open>wg.Done()\<close>, and
  \<^verbatim>\<open>recv.go\<close> has no \<^verbatim>\<open>Close\<close> of a pipe). A pass is taken as one step.
\<close>

definition pass_outcome ::
  "('ps, 'pkt, 'fs) caps \<Rightarrow> 'pkt encoder \<Rightarrow> flags \<Rightarrow> nat \<Rightarrow> env \<Rightarrow> pipe \<Rightarrow> 'ps task
     \<Rightarrow> ('pkt, 'fs) world \<Rightarrow> (nat \<times> (pipe \<times> 'ps \<times> ('pkt, 'fs) world) outcome) option" where
  "pass_outcome C enc fl start e c t w =
     (case t of
        Running n ps \<Rightarrow> Some (n, looper_body C enc fl start n e (c, ps, w))
      | Reading n ps \<Rightarrow> Some (n, default_case C enc fl n (c, ps, w))
      | Returned rs \<Rightarrow> None)"

definition sys_step ::
  "('ps, 'pkt, 'fs) caps \<Rightarrow> 'pkt encoder \<Rightarrow> flags \<Rightarrow> 'ps receiver \<Rightarrow> event
     \<Rightarrow> ('ps, 'pkt, 'fs) sys \<Rightarrow> ('ps, 'pkt, 'fs) sys" where
  "sys_step C enc fl r ev s =
     (if exited s \<noteq> None then s
      else
        (case ev of
           SrcRead chunk err \<Rightarrow>
             (if splitter_on s then
                (case splitter_body r (chunk, err) (out1 s, out2 s) of
                   None \<Rightarrow> s\<lparr>splitter_on := False\<rparr>
                 | Some (a, b) \<Rightarrow> s\<lparr>out1 := a, out2 := b\<rparr>)
              else s)
         | Pass k e \<Rightarrow>
             (case pass_of k s of
                None \<Rightarrow> s
              | Some (c, t) \<Rightarrow>
                  (case pass_outcome C enc fl (start_t s) e c t (shared s) of
                     None \<Rightarrow> s
                   | Some (n, out) \<Rightarrow>
                       put_pass k (fst (outcome_state out)) (next_task n out)
                         (s\<lparr>shared := snd (snd (outcome_state out)),
                            exited := exit_of out\<rparr>)))))"

fun run :: 
  "('ps, 'pkt, 'fs) caps \<Rightarrow> 'pkt encoder \<Rightarrow> flags \<Rightarrow> 'ps receiver \<Rightarrow> event list
     \<Rightarrow> ('ps, 'pkt, 'fs) sys \<Rightarrow> ('ps, 'pkt, 'fs) sys" where
  "run C enc fl r [] s = s"
| "run C enc fl r (ev # evs) s = run C enc fl r evs (sys_step C enc fl r ev s)"

text \<open>Every looper that was spawned has returned.\<close>

definition all_returned :: "('ps, 'pkt, 'fs) sys \<Rightarrow> bool" where
  "all_returned s =
     ((case loop_p s of Returned rs \<Rightarrow> True | _ \<Rightarrow> False) \<and>
      (case loop_q s of
         None \<Rightarrow> True
       | Some (Returned rs) \<Rightarrow> True
       | Some _ \<Rightarrow> False))"

text \<open>The number of looper goroutines of a state.\<close>

definition loopers :: "('ps, 'pkt, 'fs) sys \<Rightarrow> nat" where
  "loopers s = (case loop_q s of None \<Rightarrow> 1 | Some t \<Rightarrow> 2)"

section \<open>A small instance\<close>

text \<open>
  A toy parser for running the definitions: a block has two bytes, every byte of a
  block is a packet whose meter identifier is the value of the byte, and the raw
  samples are the block itself. The chain either holds the filter on
  \<^verbatim>\<open>meterID.UintMap\<close> (\<open>True\<close>) or rejects identifier 0 only.
\<close>

definition toy_caps :: "bool \<Rightarrow> (byte list, nat, unit) caps" where
  "toy_caps filterid =
     \<lparr>Cfg = (\<lambda>ps. \<lparr>BlockSize2 = 2, BufferLength = 1\<rparr>),
      Decode = (\<lambda>ps block. (map unat block, block)),
      Parse = (\<lambda>ps indices. (indices, ps)),
      IQ = (\<lambda>ps. ps),
      MeterID = (\<lambda>pkt. pkt),
      Match = (\<lambda>fs m pkt. (if filterid then pkt \<in> m else pkt \<noteq> 0, fs))\<rparr>"

definition toy_encoder :: "bool \<Rightarrow> nat encoder" where
  "toy_encoder x = \<lparr>is_xml = x, Encode = (\<lambda>msg. None), delimits = False\<rparr>"

definition toy_flags :: "bool \<Rightarrow> string \<Rightarrow> flags" where
  "toy_flags sgl file =
     \<lparr>msgType = ''scm'', symbolLength = 72, decimation = 1, single = sgl, timeLimit = 0,
      sampleFilename = file\<rparr>"

definition toy_world :: "nat set \<Rightarrow> (nat, unit) world" where
  "toy_world ids =
     \<lparr>sampleFile = \<lparr>contents = [], pos = 0, wr_err = None\<rparr>, uintMap = ids, fcs = (),
      wall = (\<lambda>k. 100 + k), wall_reads = 0, effects = []\<rparr>"


definition toy_rcvr :: "bool \<Rightarrow> byte list receiver" where
  "toy_rcvr dual = \<lparr>rcvr_p = [], rcvr_q = (if dual then Some [] else None)\<rparr>"

definition failing_encoder :: "nat encoder" where
  "failing_encoder = \<lparr>is_xml = False, Encode = (\<lambda>msg. Some ''disk full''), delimits = True\<rparr>"

definition quiet_env :: env where
  "quiet_env = \<lparr>sigint = False, tLimit = False, pick_sigint = False\<rparr>"

section \<open>The packets of a block\<close>

lemma encoded_append: "encoded (xs @ ys) = encoded xs @ encoded ys"
  by (induction xs rule: encoded.induct) simp_all

lemma written_append: "written (xs @ ys) = written xs @ written ys"
  by (induction xs rule: written.induct) simp_all

lemma failed_append: "failed (xs @ ys) = failed xs @ failed ys"
  by (induction xs rule: failed.induct) simp_all

lemma separated_append: "separated x xs \<Longrightarrow> separated x ys \<Longrightarrow> separated x (xs @ ys)"
proof (induction x xs rule: separated.induct)
  case (2 x m as)
  show ?case
  proof (cases x)
    case True
    with 2 show ?thesis by (cases as) (auto split: action.splits)
  next
    case False
    with 2 show ?thesis by simp
  qed
qed simp_all

lemma new_acts_append: "effects w' = effects w @ tr \<Longrightarrow> new_acts w w' = tr"
  by (simp add: new_acts_def)

lemma logs_only_Nil: "logs_only x []"
  by (simp add: logs_only_def)

lemma logs_only_Encode:
  "logs_only x tr \<Longrightarrow> logs_only x ((ActEncode m # (if x then [ActNewline] else [])) @ tr)"
  by (cases x) (simp_all add: logs_only_def)

lemma upt_wall:
  "f n # map f [Suc n..<Suc (n + k)] = map f [n..<Suc (n + k)]"
  by (simp add: upt_conv_Cons del: upt_Suc)

lemma stamped_Nil: "stamped C w bl []"
  by (simp add: stamped_def)

lemma stamped_Encode:
  assumes "stamped C u bl tr" "sampleFile u = sampleFile w" "wall u = wall w"
    "wall_reads u = Suc (wall_reads w)" "fst (Match C fs ids pkt)"
  shows "stamped C w bl
           ((ActEncode \<lparr>Time = wall w (wall_reads w), Offset = file_Seek_cur (sampleFile w),
                        Length = push_bit 1 bl, Message = pkt\<rparr>
             # (if x then [ActNewline] else [])) @ tr)"
  using assms by (auto simp add: stamped_def upt_wall simp del: upt_Suc)

lemma new_msg_eq:
  "new_msg bl pkt w =
     (\<lparr>Time = wall w (wall_reads w), Offset = file_Seek_cur (sampleFile w),
       Length = push_bit 1 bl, Message = pkt\<rparr>, w\<lparr>wall_reads := Suc (wall_reads w)\<rparr>)"
  by (simp add: new_msg_def time_Now_def)

lemma log_msg_Inr:
  "log_msg enc msg w = Inr w' \<Longrightarrow>
     Encode enc msg = None \<and>
     w' = w\<lparr>effects := effects w @ ActEncode msg # (if is_xml enc then [ActNewline] else [])\<rparr>"
  by (auto simp: log_msg_def Let_def split: option.splits)

lemma log_msg_Inl:
  "log_msg enc msg w = Inl (f, w') \<Longrightarrow>
     \<exists>e. f = ErrorEncodingMessage e \<and> Encode enc msg = Some e \<and>
         w' = w\<lparr>effects := effects w @ [ActEncodeErr msg e]\<rparr>"
  by (auto simp: log_msg_def Let_def split: option.splits)

lemma range_pkts_Inr:
  "range_pkts C enc fl bl pkts found w = Inr (found', w') \<Longrightarrow>
     \<exists>tr.
       sampleFile w' = sampleFile w \<and> wall w' = wall w \<and>
       wall_reads w' = wall_reads w + length (encoded tr) \<and>
       effects w' = effects w @ tr \<and>
       uintMap w' = (if single fl then uintMap w - MeterID C ` Message ` set (encoded tr)
                     else uintMap w) \<and>
       found' = (found \<or> encoded tr \<noteq> []) \<and>
       logs_only (is_xml enc) tr \<and> stamped C w bl tr"
proof (induction pkts arbitrary: found w)
  case Nil
  then have "w' = w" "found' = found" by simp_all
  then show ?case by (intro exI[of _ "[]"]) (simp add: logs_only_Nil stamped_Nil)
next
  case (Cons pkt pkts)
  obtain ok fs0 where m: "Match C (fcs w) (uintMap w) pkt = (ok, fs0)"
    by (cases "Match C (fcs w) (uintMap w) pkt")
  show ?case
  proof (cases ok)
    case False
    with Cons.prems m have "range_pkts C enc fl bl pkts found (w\<lparr>fcs := fs0\<rparr>) = Inr (found', w')"
      by simp
    from Cons.IH[OF this] show ?thesis by (cases "single fl") (simp_all add: stamped_def)
  next
    case True
    let ?w1 = "w\<lparr>fcs := fs0, wall_reads := Suc (wall_reads w)\<rparr>"
    let ?m = "\<lparr>Time = wall w (wall_reads w), Offset = file_Seek_cur (sampleFile w),
       Length = push_bit 1 bl, Message = pkt\<rparr>"
    let ?nl = "ActEncode ?m # (if is_xml enc then [ActNewline] else [])"
    from Cons.prems m True obtain w2 where l: "log_msg enc ?m ?w1 = Inr w2"
      by (auto simp: new_msg_eq split: sum.splits)
    have w2: "w2 = ?w1\<lparr>effects := effects w @ ?nl\<rparr>"
      using log_msg_Inr[OF l] by simp
    have enl: "encoded ?nl = [?m]" by simp
    have lo: "logs_only (is_xml enc) ?nl"
      using logs_only_Encode[OF logs_only_Nil, of "is_xml enc" ?m] by simp
    have acc: "fst (Match C (fcs w) (uintMap w) pkt)" using m True by simp
    have st: "stamped C w bl ?nl"
      using stamped_Encode[OF stamped_Nil _ _ _ acc, where u = ?w1 and w = w and bl = bl and x = "is_xml enc"] by simp
    show ?thesis
    proof (cases "single fl \<and> uintMap w2 = {}")
      case True
      with Cons.prems m \<open>ok\<close> l have "w' = w2" "found'" by (simp_all add: new_msg_eq)
      moreover from True w2 have "uintMap w = {}" by simp
      ultimately show ?thesis using w2 True enl lo st
        by (intro exI[of _ ?nl]) simp
    next
      case False
      let ?w3 = "if single fl then w2\<lparr>uintMap := uintMap w2 - {MeterID C pkt}\<rparr> else w2"
      from False Cons.prems m \<open>ok\<close> l have
        "range_pkts C enc fl bl pkts True ?w3 = Inr (found', w')"
        by (auto simp add: new_msg_eq split: if_splits)
      from Cons.IH[OF this] obtain tr where ih:
        "sampleFile w' = sampleFile ?w3" "wall w' = wall ?w3"
        "wall_reads w' = wall_reads ?w3 + length (encoded tr)"
        "effects w' = effects ?w3 @ tr"
        "uintMap w' = (if single fl then uintMap ?w3 - MeterID C ` Message ` set (encoded tr)
                          else uintMap ?w3)"
        "found' = (True \<or> encoded tr \<noteq> [])"
        "logs_only (is_xml enc) tr" "stamped C ?w3 bl tr"
        by blast
      have f3: "sampleFile ?w3 = sampleFile w" "wall ?w3 = wall w" "wall_reads ?w3 = Suc (wall_reads w)"
        "effects ?w3 = effects w @ ?nl"
        "uintMap ?w3 = (if single fl then uintMap w - {MeterID C pkt} else uintMap w)"
        using w2 by simp_all
      have e: "encoded (?nl @ tr) = ?m # encoded tr"
        by (simp add: encoded_append)
      have u: "uintMap w' = (if single fl then uintMap w - MeterID C ` Message ` set (?m # encoded tr)
                          else uintMap w)"
        using ih(5) f3(5) by (cases "single fl") auto
      have lo': "logs_only (is_xml enc) (?nl @ tr)"
        using logs_only_Encode[OF ih(7)] .
      have st': "stamped C w bl (?nl @ tr)"
        using stamped_Encode[OF ih(8) f3(1-3) acc] .
      have "sampleFile w' = sampleFile w" "wall w' = wall w"
        "wall_reads w' = wall_reads w + length (encoded (?nl @ tr))"
        "effects w' = effects w @ (?nl @ tr)"
        "found' = (found \<or> encoded (?nl @ tr) \<noteq> [])"
        unfolding e using ih(1-4,6) f3 by simp_all
      with u lo' st' e show ?thesis
        by (intro exI[of _ "?nl @ tr"]) (simp only: simp_thms)
    qed
  qed
qed

lemma range_pkts_Inl:
  "range_pkts C enc fl bl pkts found w = Inl (f, w') \<Longrightarrow>
     \<exists>tr m e.
       sampleFile w' = sampleFile w \<and> wall w' = wall w \<and>
       effects w' = effects w @ tr @ [ActEncodeErr m e] \<and>
       f = ErrorEncodingMessage e \<and> Encode enc m = Some e \<and>
       logs_only (is_xml enc) tr \<and> stamped C w bl tr"
proof (induction pkts arbitrary: found w)
  case Nil
  then show ?case by simp
next
  case (Cons pkt pkts)
  obtain ok fs0 where m: "Match C (fcs w) (uintMap w) pkt = (ok, fs0)"
    by (cases "Match C (fcs w) (uintMap w) pkt")
  show ?case
  proof (cases ok)
    case False
    with Cons.prems m have "range_pkts C enc fl bl pkts found (w\<lparr>fcs := fs0\<rparr>) = Inl (f, w')"
      by simp
    from Cons.IH[OF this] show ?thesis by (simp add: stamped_def)
  next
    case True
    let ?w1 = "w\<lparr>fcs := fs0, wall_reads := Suc (wall_reads w)\<rparr>"
    let ?m = "\<lparr>Time = wall w (wall_reads w), Offset = file_Seek_cur (sampleFile w),
       Length = push_bit 1 bl, Message = pkt\<rparr>"
    let ?nl = "ActEncode ?m # (if is_xml enc then [ActNewline] else [])"
    show ?thesis
    proof (cases "log_msg enc ?m ?w1")
      case (Inl err)
      with Cons.prems m True have "err = (f, w')" by (simp add: new_msg_eq)
      with Inl obtain e where "f = ErrorEncodingMessage e" "Encode enc ?m = Some e"
        "w' = ?w1\<lparr>effects := effects ?w1 @ [ActEncodeErr ?m e]\<rparr>"
        using log_msg_Inl[of enc ?m ?w1 f w'] by auto
      then show ?thesis
        by (intro exI[of _ "[]"] exI[of _ ?m] exI[of _ e]) (simp add: logs_only_Nil stamped_Nil)
    next
      case (Inr w2)
      have w2: "w2 = ?w1\<lparr>effects := effects w @ ?nl\<rparr>"
        using log_msg_Inr[OF Inr] by simp
      let ?w3 = "if single fl then w2\<lparr>uintMap := uintMap w2 - {MeterID C pkt}\<rparr> else w2"
      from Cons.prems m \<open>ok\<close> Inr have
        "range_pkts C enc fl bl pkts True ?w3 = Inl (f, w')"
        by (auto simp add: new_msg_eq split: if_splits)
      from Cons.IH[OF this] obtain tr m' e where ih:
        "sampleFile w' = sampleFile ?w3" "wall w' = wall ?w3"
        "effects w' = effects ?w3 @ tr @ [ActEncodeErr m' e]"
        "f = ErrorEncodingMessage e" "Encode enc m' = Some e"
        "logs_only (is_xml enc) tr" "stamped C ?w3 bl tr"
        by blast
      have f3: "sampleFile ?w3 = sampleFile w" "wall ?w3 = wall w" "wall_reads ?w3 = Suc (wall_reads w)"
        "effects ?w3 = effects w @ ?nl"
        using w2 by simp_all
      have lo': "logs_only (is_xml enc) (?nl @ tr)"
        using logs_only_Encode[OF ih(6)] .
      have acc: "fst (Match C (fcs w) (uintMap w) pkt)" using m True by simp
      have st': "stamped C w bl (?nl @ tr)"
        using stamped_Encode[OF ih(7) f3(1-3) acc] .
      have "sampleFile w' = sampleFile w" "wall w' = wall w"
        "effects w' = effects w @ (?nl @ tr) @ [ActEncodeErr m' e]"
        using ih(1-3) f3 by simp_all
      with lo' st' ih(4,5) show ?thesis
        by (intro exI[of _ "?nl @ tr"] exI[of _ m'] exI[of _ e]) (simp only: simp_thms)
    qed
  qed
qed

lemma after_block_cases:
  "after_block fl iq found w = r \<Longrightarrow>
     (\<not> found \<and> r = Inr (False, w)) \<or>
     (found \<and> sampleFilename fl = os_DevNull \<and> r = Inr (single fl \<and> uintMap w = {}, w)) \<or>
     (found \<and> sampleFilename fl \<noteq> os_DevNull \<and>
        (\<exists>e. wr_err (sampleFile w) = Some e \<and>
           r = Inl (ErrorWritingRawSamples e, w\<lparr>effects := effects w @ [ActWriteErr iq e]\<rparr>))) \<or>
     (found \<and> sampleFilename fl \<noteq> os_DevNull \<and>
        (\<exists>sf. file_Write (sampleFile w) iq = (None, sf) \<and>
           r = Inr (single fl \<and> uintMap w = {},
                    w\<lparr>sampleFile := sf, effects := effects w @ [ActWrite iq]\<rparr>)))"
  by (cases found; cases "sampleFilename fl = os_DevNull"; cases "wr_err (sampleFile w)")
     (auto simp: after_block_def file_Write_def Let_def)

lemma process_block_Inr:
  assumes "process_block C enc fl block ps w = Inr (ret, ps', w')"
  shows "\<exists>tr ws.
       effects w' = effects w @ tr @ ws \<and>
       logs_only (is_xml enc) tr \<and> stamped C w (BufferLength (Cfg C ps')) tr \<and>
       wall w' = wall w \<and>
       uintMap w' = (if single fl then uintMap w - MeterID C ` Message ` set (encoded tr)
                     else uintMap w) \<and>
       ret = (encoded tr \<noteq> [] \<and> single fl \<and> uintMap w' = {}) \<and>
       (if encoded tr \<noteq> [] \<and> sampleFilename fl \<noteq> os_DevNull
        then ws = [ActWrite (IQ C ps')] \<and>
             file_Write (sampleFile w) (IQ C ps') = (None, sampleFile w')
        else ws = [] \<and> sampleFile w' = sampleFile w)"
proof -
  obtain indices ps1 where d: "Decode C ps block = (indices, ps1)" by (cases "Decode C ps block")
  obtain pkts ps2 where p: "Parse C ps1 indices = (pkts, ps2)" by (cases "Parse C ps1 indices")
  let ?bl = "BufferLength (Cfg C ps2)"
  from assms d p obtain found w1 where
    r: "range_pkts C enc fl ?bl pkts False w = Inr (found, w1)"
    and a: "after_block fl (IQ C ps2) found w1 = Inr (ret, w')" and ps': "ps' = ps2"
    by (auto simp: process_block_def split: sum.splits prod.splits)
  from range_pkts_Inr[OF r] obtain tr where tr:
    "sampleFile w1 = sampleFile w" "wall w1 = wall w"
    "effects w1 = effects w @ tr"
    "uintMap w1 = (if single fl then uintMap w - MeterID C ` Message ` set (encoded tr)
                     else uintMap w)"
    "found = (encoded tr \<noteq> [])"
    "logs_only (is_xml enc) tr" "stamped C w ?bl tr"
    by auto
  from after_block_cases[OF a] consider
    (none) "\<not> found" "ret = False" "w' = w1"
    | (null) "found" "sampleFilename fl = os_DevNull" "ret = (single fl \<and> uintMap w1 = {})" "w' = w1"
    | (wrote) sf where "found" "sampleFilename fl \<noteq> os_DevNull"
        "file_Write (sampleFile w1) (IQ C ps2) = (None, sf)"
        "ret = (single fl \<and> uintMap w1 = {})"
        "w' = w1\<lparr>sampleFile := sf, effects := effects w1 @ [ActWrite (IQ C ps2)]\<rparr>"
    by auto
  then show ?thesis
  proof cases
    case none
    with tr ps' show ?thesis
      by (intro exI[of _ tr] exI[of _ "[]"]) (simp split del: if_split)
  next
    case null
    with tr ps' show ?thesis
      by (intro exI[of _ tr] exI[of _ "[]"]) (simp split del: if_split)
  next
    case wrote
    with tr ps' show ?thesis
      by (intro exI[of _ tr] exI[of _ "[ActWrite (IQ C ps2)]"]) (simp split del: if_split)
  qed
qed

lemma process_block_Inl:
  assumes "process_block C enc fl block ps w = Inl (f, ps', w')"
  shows "\<exists>tr a.
       effects w' = effects w @ tr @ [a] \<and>
       logs_only (is_xml enc) tr \<and> stamped C w (BufferLength (Cfg C ps')) tr \<and>
       sampleFile w' = sampleFile w \<and> wall w' = wall w \<and>
       ((\<exists>m e. a = ActEncodeErr m e \<and> f = ErrorEncodingMessage e \<and> Encode enc m = Some e) \<or>
        (\<exists>e. a = ActWriteErr (IQ C ps') e \<and> f = ErrorWritingRawSamples e \<and>
             wr_err (sampleFile w) = Some e \<and>
             encoded tr \<noteq> [] \<and> sampleFilename fl \<noteq> os_DevNull))"
proof -
  obtain indices ps1 where d: "Decode C ps block = (indices, ps1)" by (cases "Decode C ps block")
  obtain pkts ps2 where p: "Parse C ps1 indices = (pkts, ps2)" by (cases "Parse C ps1 indices")
  let ?bl = "BufferLength (Cfg C ps2)"
  show ?thesis
  proof (cases "range_pkts C enc fl ?bl pkts False w")
    case (Inl err)
    with assms d p have r: "range_pkts C enc fl ?bl pkts False w = Inl (f, w')" and ps': "ps' = ps2"
      by (auto simp: process_block_def split: prod.splits)
    from range_pkts_Inl[OF r] ps' show ?thesis by blast
  next
    case (Inr res)
    obtain found w1 where res: "res = (found, w1)" by (cases res)
    with Inr have r: "range_pkts C enc fl ?bl pkts False w = Inr (found, w1)" by simp
    with assms d p have a: "after_block fl (IQ C ps2) found w1 = Inl (f, w')" and ps': "ps' = ps2"
      by (auto simp: process_block_def split: sum.splits prod.splits)
    from range_pkts_Inr[OF r] obtain tr where tr:
      "sampleFile w1 = sampleFile w" "wall w1 = wall w"
      "effects w1 = effects w @ tr"
      "found = (encoded tr \<noteq> [])"
      "logs_only (is_xml enc) tr" "stamped C w ?bl tr"
      by auto
    from after_block_cases[OF a] obtain e where
      "found" "sampleFilename fl \<noteq> os_DevNull" "wr_err (sampleFile w1) = Some e"
      "f = ErrorWritingRawSamples e" "w' = w1\<lparr>effects := effects w1 @ [ActWriteErr (IQ C ps2) e]\<rparr>"
      by auto
    with tr ps' show ?thesis
      by (intro exI[of _ tr] exI[of _ "ActWriteErr (IQ C ps2) e"]) simp
  qed
qed

lemma looper_body_cases:
  assumes "looper_body C enc fl start n e (inp, ps, w) = out"
  obtains
    (interrupted) "sigint e" "out = Return Interrupted (inp, ps, w)"
  | (deadline) "timeLimit fl \<noteq> 0" "tLimit e"
      "out = Return DeadlineReached
               (inp, ps, w\<lparr>wall_reads := Suc (wall_reads w),
                            effects := effects w @ [ActTimeLimit (int (wall w (wall_reads w)) - int start)]\<rparr>)"
  | (blocked) "io_ReadFull inp n = RBlocked" "out = Blocked (inp, ps, w)"
  | (read_err) err inp' where "io_ReadFull inp n = RErr err inp'"
      "out = Fatal (ErrorReadingSamples err) (inp', ps, w)"
  | (fatal) block inp' f ps' w' where "io_ReadFull inp n = ROk block inp'"
      "process_block C enc fl block ps w = Inl (f, ps', w')" "out = Fatal f (inp', ps', w')"
  | (processed) block inp' ret ps' w' where "io_ReadFull inp n = ROk block inp'"
      "process_block C enc fl block ps w = Inr (ret, ps', w')"
      "out = (if ret then Return CompletionSetEmpty (inp', ps', w') else Continue (inp', ps', w'))"
proof -
  let ?tl = "timeLimit fl \<noteq> 0 \<and> tLimit e"
  show ?thesis
  proof (cases "sigint e \<and> (if ?tl then pick_sigint e else True)")
    case True
    with assms have "out = Return Interrupted (inp, ps, w)" by (auto simp add: looper_body_def default_case_def Let_def split: if_splits)
    with True interrupted show ?thesis by blast
  next
    case ns: False
    show ?thesis
    proof (cases ?tl)
      case True
      with ns assms have "out = Return DeadlineReached
               (inp, ps, w\<lparr>wall_reads := Suc (wall_reads w),
                            effects := effects w @ [ActTimeLimit (int (wall w (wall_reads w)) - int start)]\<rparr>)"
        by (auto simp add: looper_body_def default_case_def time_Now_def Let_def split: if_splits)
      with True deadline show ?thesis by blast
    next
      case False
      with ns assms have o: "out = (case io_ReadFull inp n of
                RBlocked \<Rightarrow> Blocked (inp, ps, w)
              | RErr err inp' \<Rightarrow> Fatal (ErrorReadingSamples err) (inp', ps, w)
              | ROk block inp' \<Rightarrow>
                  (case process_block C enc fl block ps w of
                     Inl (err, ps', w') \<Rightarrow> Fatal err (inp', ps', w')
                   | Inr (ret, ps', w') \<Rightarrow>
                       if ret then Return CompletionSetEmpty (inp', ps', w')
                       else Continue (inp', ps', w')))"
        by (auto simp add: looper_body_def default_case_def Let_def split: if_splits)
      show ?thesis
      proof (cases "io_ReadFull inp n")
        case (ROk block inp')
        show ?thesis
        proof (cases "process_block C enc fl block ps w")
          case (Inl a)
          obtain f ps' w' where "a = (f, ps', w')" by (cases a)
          with Inl ROk o fatal show ?thesis by simp
        next
          case (Inr b)
          obtain ret ps' w' where "b = (ret, ps', w')" by (cases b)
          with Inr ROk o processed[of block inp' ret ps' w'] show ?thesis by simp
        qed
      next
        case (RErr err inp')
        with o read_err show ?thesis by simp
      next
        case RBlocked
        with o blocked show ?thesis by simp
      qed
    qed
  qed
qed

lemma pass_trace:
  assumes "looper_body C enc fl start n e (inp, ps, w) = out"
    and "outcome_state out = (inp', ps', w')"
  obtains
    (quiet) tr where "effects w' = effects w @ tr"
      "logs_only (is_xml enc) tr" "stamped C w (BufferLength (Cfg C ps')) tr"
      "sampleFile w' = sampleFile w" "encoded tr = [] \<or> sampleFilename fl = os_DevNull"
      "\<not> is_Fatal out \<or> (\<exists>err. out = Fatal (ErrorReadingSamples err) (inp', ps', w') \<and> tr = [])"
  | (limit) d where "effects w' = effects w @ [ActTimeLimit d]"
      "sampleFile w' = sampleFile w" "out = Return DeadlineReached (inp', ps', w')"
  | (wrote) tr where "effects w' = effects w @ tr @ [ActWrite (IQ C ps')]"
      "logs_only (is_xml enc) tr" "stamped C w (BufferLength (Cfg C ps')) tr"
      "encoded tr \<noteq> []" "sampleFilename fl \<noteq> os_DevNull"
      "file_Write (sampleFile w) (IQ C ps') = (None, sampleFile w')" "\<not> is_Fatal out"
  | (encode_err) tr m err where "effects w' = effects w @ tr @ [ActEncodeErr m err]"
      "logs_only (is_xml enc) tr" "stamped C w (BufferLength (Cfg C ps')) tr"
      "sampleFile w' = sampleFile w" "out = Fatal (ErrorEncodingMessage err) (inp', ps', w')"
      "Encode enc m = Some err"
  | (write_err) tr err where "effects w' = effects w @ tr @ [ActWriteErr (IQ C ps') err]"
      "logs_only (is_xml enc) tr" "stamped C w (BufferLength (Cfg C ps')) tr"
      "sampleFile w' = sampleFile w" "out = Fatal (ErrorWritingRawSamples err) (inp', ps', w')"
      "encoded tr \<noteq> []" "sampleFilename fl \<noteq> os_DevNull" "wr_err (sampleFile w) = Some err"
  using assms(1)
proof (cases rule: looper_body_cases)
  case interrupted
  with assms(2) have "w' = w" by simp
  with interrupted show ?thesis
    by (intro quiet[of "[]"]) (simp_all add: logs_only_Nil stamped_Nil)
next
  case deadline
  with assms(2) show ?thesis
    by (intro limit) auto
next
  case blocked
  with assms(2) have "w' = w" by simp
  with blocked show ?thesis
    by (intro quiet[of "[]"]) (simp_all add: logs_only_Nil stamped_Nil)
next
  case (read_err err inp2)
  with assms(2) have "w' = w" "out = Fatal (ErrorReadingSamples err) (inp', ps', w')" by simp_all
  then show ?thesis
    by (intro quiet[of "[]"]) (simp_all add: logs_only_Nil stamped_Nil)
next
  case (fatal block inp2 f ps2 w2)
  with assms(2) have eq: "ps2 = ps'" "w2 = w'" "inp2 = inp'" by simp_all
  from process_block_Inl[OF fatal(2)[unfolded eq]] obtain tr a where tr:
    "effects w' = effects w @ tr @ [a]"
    "logs_only (is_xml enc) tr" "stamped C w (BufferLength (Cfg C ps')) tr"
    "sampleFile w' = sampleFile w"
    "(\<exists>m e. a = ActEncodeErr m e \<and> f = ErrorEncodingMessage e \<and> Encode enc m = Some e) \<or>
        (\<exists>e. a = ActWriteErr (IQ C ps') e \<and> f = ErrorWritingRawSamples e \<and>
             wr_err (sampleFile w) = Some e \<and>
             encoded tr \<noteq> [] \<and> sampleFilename fl \<noteq> os_DevNull)"
    by blast
  from tr(5) show ?thesis
  proof
    assume "\<exists>m e. a = ActEncodeErr m e \<and> f = ErrorEncodingMessage e \<and> Encode enc m = Some e"
    then obtain m e where "a = ActEncodeErr m e" "f = ErrorEncodingMessage e" "Encode enc m = Some e"
      by blast
    with tr fatal(3) eq show ?thesis by (intro encode_err[of tr m e]) simp_all
  next
    assume "\<exists>e. a = ActWriteErr (IQ C ps') e \<and> f = ErrorWritingRawSamples e \<and>
             wr_err (sampleFile w) = Some e \<and>
             encoded tr \<noteq> [] \<and> sampleFilename fl \<noteq> os_DevNull"
    then obtain e where "a = ActWriteErr (IQ C ps') e" "f = ErrorWritingRawSamples e"
             "wr_err (sampleFile w) = Some e" "encoded tr \<noteq> []" "sampleFilename fl \<noteq> os_DevNull"
      by blast
    with tr fatal(3) eq show ?thesis by (intro write_err[of tr e]) simp_all
  qed
next
  case (processed block inp2 ret ps2 w2)
  with assms(2) have eq: "ps2 = ps'" "w2 = w'" "inp2 = inp'" by (simp_all split: if_splits)
  from processed(3) have nf: "\<not> is_Fatal out" by (simp split: if_splits)
  from process_block_Inr[OF processed(2)[unfolded eq]] obtain tr ws where tr:
    "effects w' = effects w @ tr @ ws"
    "logs_only (is_xml enc) tr" "stamped C w (BufferLength (Cfg C ps')) tr"
    "if encoded tr \<noteq> [] \<and> sampleFilename fl \<noteq> os_DevNull
        then ws = [ActWrite (IQ C ps')] \<and>
             file_Write (sampleFile w) (IQ C ps') = (None, sampleFile w')
        else ws = [] \<and> sampleFile w' = sampleFile w"
    by blast
  show ?thesis
  proof (cases "encoded tr \<noteq> [] \<and> sampleFilename fl \<noteq> os_DevNull")
    case True
    with tr nf show ?thesis by (intro wrote[of tr]) simp_all
  next
    case False
    with tr nf show ?thesis by (intro quiet[of tr]) auto
  qed
qed

section \<open>One pass of a looper\<close>

lemmas toy_defs =
  looper_body_def default_case_def process_block_def after_block_def new_msg_def log_msg_def time_Now_def
  file_Write_def file_Seek_cur_def io_ReadFull_def os_DevNull_def new_acts_def
  toy_caps_def toy_encoder_def toy_flags_def toy_world_def quiet_env_def Let_def


lemma pass_logged:
  assumes "outcome_state (looper_body C enc fl start n e (inp, ps, w)) = (inp', ps', w')"
  obtains tr ws where "new_acts w w' = tr @ ws" "logs_only (is_xml enc) tr"
    "stamped C w (BufferLength (Cfg C ps')) tr" "encoded ws = []" "length ws \<le> 1"
    "separated (is_xml enc) ws"
    "written ws = [] \<and> sampleFile w' = sampleFile w \<or>
     ws = [ActWrite (IQ C ps')] \<and> encoded tr \<noteq> [] \<and> sampleFilename fl \<noteq> os_DevNull \<and>
       file_Write (sampleFile w) (IQ C ps') = (None, sampleFile w') \<and>
       \<not> is_Fatal (looper_body C enc fl start n e (inp, ps, w))"
proof -
  obtain out where out: "looper_body C enc fl start n e (inp, ps, w) = out" by simp
  with assms have st: "outcome_state out = (inp', ps', w')" by simp
  from out st show ?thesis
  proof (cases rule: pass_trace)
    case (quiet tr)
    then show ?thesis
      by (intro that[of tr "[]"]) (simp_all add: new_acts_append)
  next
    case (limit d)
    then show ?thesis
      by (intro that[of "[]" "[ActTimeLimit d]"])
         (simp_all add: new_acts_append logs_only_Nil stamped_Nil)
  next
    case (wrote tr)
    then show ?thesis using out
      by (intro that[of tr "[ActWrite (IQ C ps')]"]) (simp_all add: new_acts_append)
  next
    case (encode_err tr m err)
    then show ?thesis
      by (intro that[of tr "[ActEncodeErr m err]"]) (simp_all add: new_acts_append)
  next
    case (write_err tr err)
    then show ?thesis
      by (intro that[of tr "[ActWriteErr (IQ C ps') err]"]) (simp_all add: new_acts_append)
  qed
qed

section \<open>The messages and the sample file\<close>


lemma toy_pass_xml:
  "outcome_state
     (looper_body (toy_caps False) (toy_encoder True) (toy_flags False ''iq.bin'') 0 2 quiet_env
        (\<lparr>buf = [7, 9, 3], closed = False\<rparr>, [], toy_world {})) =
   (\<lparr>buf = [3], closed = False\<rparr>, [7, 9],
    \<lparr>sampleFile = \<lparr>contents = [7, 9], pos = 2, wr_err = None\<rparr>, uintMap = {}, fcs = (),
      wall = (\<lambda>k. 100 + k), wall_reads = 2,
      effects = [ActEncode \<lparr>Time = 100, Offset = 0, Length = 2, Message = 7\<rparr>, ActNewline,
                 ActEncode \<lparr>Time = 101, Offset = 0, Length = 2, Message = 9\<rparr>, ActNewline,
                 ActWrite [7, 9]]\<rparr>)"
  by (simp add: toy_defs)





text \<open>
  C8. A pass of a looper changes the sample file, or writes to it, only if it encoded
  at least one message and the name of the sample file is not \<^verbatim>\<open>os.DevNull\<close>; every
  message encoded is of a packet that the filter chain accepted. A pass that encodes no
  message, so any pass over a block with no accepted packet, and any pass when the
  sample file is \<^verbatim>\<open>os.DevNull\<close>, leaves the sample file as it was and makes no write.
\<close>

theorem capture_only_when_found:
  assumes "outcome_state (looper_body C enc fl start n e (inp, ps, w)) = (inp', ps', w')"
  shows "(sampleFile w' \<noteq> sampleFile w \<or> written (new_acts w w') \<noteq> [] \<longrightarrow>
            encoded (new_acts w w') \<noteq> [] \<and> sampleFilename fl \<noteq> os_DevNull) \<and>
         (\<forall>m \<in> set (encoded (new_acts w w')). \<exists>fs ids. fst (Match C fs ids (Message m))) \<and>
         (encoded (new_acts w w') = [] \<or> sampleFilename fl = os_DevNull \<longrightarrow>
            sampleFile w' = sampleFile w \<and> written (new_acts w w') = [])"
proof -
  from assms obtain tr ws where t: "new_acts w w' = tr @ ws" "logs_only (is_xml enc) tr"
    "stamped C w (BufferLength (Cfg C ps')) tr" "encoded ws = []"
    "written ws = [] \<and> sampleFile w' = sampleFile w \<or>
     ws = [ActWrite (IQ C ps')] \<and> encoded tr \<noteq> [] \<and> sampleFilename fl \<noteq> os_DevNull \<and>
       file_Write (sampleFile w) (IQ C ps') = (None, sampleFile w') \<and>
       \<not> is_Fatal (looper_body C enc fl start n e (inp, ps, w))"
    by (rule pass_logged)
  have e: "encoded (new_acts w w') = encoded tr" using t(1,4) by (simp add: encoded_append)
  have wr: "written (new_acts w w') = written ws"
    using t(1,2) by (simp add: written_append logs_only_def)
  have acc: "\<forall>m \<in> set (encoded tr). \<exists>fs ids. fst (Match C fs ids (Message m))"
    using t(3) by (simp add: stamped_def list_all_iff)
  from t(5) acc show ?thesis unfolding e wr by auto
qed

lemma toy_pass_rejected:
  "outcome_state
     (looper_body (toy_caps False) (toy_encoder True) (toy_flags False ''iq.bin'') 0 2 quiet_env
        (\<lparr>buf = [0, 0, 3], closed = False\<rparr>, [], toy_world {})) =
   (\<lparr>buf = [3], closed = False\<rparr>, [0, 0], toy_world {})"
  by (simp add: toy_defs)

theorem capture_only_when_found_witness:
  "encoded (new_acts (toy_world {})
     (snd (snd (outcome_state
        (looper_body (toy_caps False) (toy_encoder True) (toy_flags False ''iq.bin'') 0 2
           quiet_env (\<lparr>buf = [0, 0, 3], closed = False\<rparr>, [], toy_world {})))))) = []
   \<and> sampleFile
     (snd (snd (outcome_state
        (looper_body (toy_caps False) (toy_encoder True) (toy_flags False ''iq.bin'') 0 2
           quiet_env (\<lparr>buf = [0, 0, 3], closed = False\<rparr>, [], toy_world {}))))) =
     sampleFile (toy_world {})"
  using capture_only_when_found[OF toy_pass_rejected] unfolding toy_pass_rejected
  by (simp add: toy_defs)



lemma log_msg_delimits: "log_msg (enc\<lparr>delimits := d\<rparr>) msg w = log_msg enc msg w"
  by (simp add: log_msg_def split: option.splits)

lemma range_pkts_delimits:
  "range_pkts C (enc\<lparr>delimits := d\<rparr>) fl bl pkts found w = range_pkts C enc fl bl pkts found w"
  by (induction pkts arbitrary: found w)
     (simp_all add: log_msg_delimits Let_def split: prod.splits sum.splits)

lemma process_block_delimits:
  "process_block C (enc\<lparr>delimits := d\<rparr>) fl block ps w = process_block C enc fl block ps w"
  by (simp add: process_block_def range_pkts_delimits split: prod.splits)

lemma looper_body_delimits:
  "looper_body C (enc\<lparr>delimits := d\<rparr>) fl start n e st = looper_body C enc fl start n e st"
  by (simp add: looper_body_def default_case_def process_block_delimits Let_def
        split: prod.splits read_full.splits)

text \<open>
  C4, as the code has it. Among the calls of a pass of a looper, a newline is written to
  the log right after every message encoded without error when the encoder is the XML
  encoder, and no newline is written at all when it is any other encoder: the test is
  the type assertion \<^verbatim>\<open>encoder.(*xml.Encoder)\<close> on that one format. Whether the format
  delimits its records by itself plays no part: changing that leaves the pass as it is.
\<close>

theorem newline_after_encode:
  assumes "outcome_state (looper_body C enc fl start n e (inp, ps, w)) = (inp', ps', w')"
  shows "separated (is_xml enc) (new_acts w w') \<and>
         looper_body C (enc\<lparr>delimits := d\<rparr>) fl start n e (inp, ps, w) =
           looper_body C enc fl start n e (inp, ps, w)"
proof -
  from assms obtain tr ws where t: "new_acts w w' = tr @ ws" "logs_only (is_xml enc) tr"
    "separated (is_xml enc) ws"
    by (rule pass_logged)
  then have "separated (is_xml enc) (new_acts w w')"
    by (simp add: separated_append logs_only_def)
  then show ?thesis by (simp add: looper_body_delimits)
qed

theorem newline_after_encode_witness:
  "new_acts (toy_world {})
     (snd (snd (outcome_state
        (looper_body (toy_caps False) (toy_encoder True) (toy_flags False ''iq.bin'') 0 2
           quiet_env (\<lparr>buf = [7, 9, 3], closed = False\<rparr>, [], toy_world {}))))) =
     [ActEncode \<lparr>Time = 100, Offset = 0, Length = 2, Message = 7\<rparr>, ActNewline,
      ActEncode \<lparr>Time = 101, Offset = 0, Length = 2, Message = 9\<rparr>, ActNewline,
      ActWrite [7, 9]]
   \<and> separated (is_xml (toy_encoder True))
     (new_acts (toy_world {})
       (snd (snd (outcome_state
          (looper_body (toy_caps False) (toy_encoder True) (toy_flags False ''iq.bin'') 0 2
             quiet_env (\<lparr>buf = [7, 9, 3], closed = False\<rparr>, [], toy_world {}))))))"
  using newline_after_encode[OF toy_pass_xml] unfolding toy_pass_xml
  by (simp add: toy_defs)

text \<open>
  C4 as it is worded fails: an encoder that is not the XML encoder and whose format does
  not delimit its records gets no newline after its messages.
\<close>

theorem separator_by_capability_counterexample:
  "\<not> delimits (toy_encoder False) \<and>
   new_acts (toy_world {})
     (snd (snd (outcome_state
        (looper_body (toy_caps False) (toy_encoder False) (toy_flags False ''iq.bin'') 0 2
           quiet_env (\<lparr>buf = [7, 9, 3], closed = False\<rparr>, [], toy_world {}))))) =
     [ActEncode \<lparr>Time = 100, Offset = 0, Length = 2, Message = 7\<rparr>,
      ActEncode \<lparr>Time = 101, Offset = 0, Length = 2, Message = 9\<rparr>,
      ActWrite [7, 9]]"
  by (simp add: toy_defs)

section \<open>The goroutines of Run\<close>

lemma sys_step_exited: "exited s \<noteq> None \<Longrightarrow> sys_step C enc fl r ev s = s"
  by (simp add: sys_step_def)



lemma put_pass_fields:
  "shared (put_pass k c t s) = shared s" "exited (put_pass k c t s) = exited s"
  "wg (put_pass k c t s) = wg s" "start_t (put_pass k c t s) = start_t s"
  "splitter_on (put_pass k c t s) = splitter_on s"
  "pass_of k (put_pass k c t s) = Some (c, t)"
  by (cases k; simp add: put_pass_def pass_of_def)+

lemma default_case_looper_body:
  "default_case C enc fl n st = looper_body C enc fl start n quiet_env st"
  by (cases st) (simp add: looper_body_def quiet_env_def)

lemma pass_outcome_body:
  assumes "pass_outcome C enc fl start e c t w = Some (n, out)"
  obtains e' ps where "out = looper_body C enc fl start n e' (c, ps, w)"
    "t = Running n ps \<and> e' = e \<or> t = Reading n ps \<and> e' = quiet_env"
  using assms
  by (cases t) (auto simp: pass_outcome_def default_case_looper_body[where start = start])

lemma sys_step_Pass:
  assumes "exited s = None" "pass_of k s = Some (c, t)"
    and "pass_outcome C enc fl (start_t s) e c t (shared s) = Some (n, out)"
    and "outcome_state out = (c', ps', w')"
  shows "sys_step C enc fl r (Pass k e) s =
           put_pass k c' (next_task n out) (s\<lparr>shared := w', exited := exit_of out\<rparr>)"
  using assms by (simp add: sys_step_def)

lemma sys_step_Pass_fields:
  assumes "exited s = None" "pass_of k s = Some (c, t)"
    and "pass_outcome C enc fl (start_t s) e c t (shared s) = Some (n, out)"
    and "outcome_state out = (c', ps', w')"
  shows "shared (sys_step C enc fl r (Pass k e) s) = w'"
    and "exited (sys_step C enc fl r (Pass k e) s) = exit_of out"
    and "pass_of k (sys_step C enc fl r (Pass k e) s) = Some (c', next_task n out)"
    and "wg (sys_step C enc fl r (Pass k e) s) = wg s"
  unfolding sys_step_Pass[OF assms] by (simp_all add: put_pass_fields)

lemma sys_step_Pass_cases:
  obtains (idle) "sys_step C enc fl r (Pass k e) s = s"
  | (pass) c t n out c' ps' w' where "exited s = None" "pass_of k s = Some (c, t)"
      "pass_outcome C enc fl (start_t s) e c t (shared s) = Some (n, out)"
      "outcome_state out = (c', ps', w')"
proof (cases "exited s")
  case (Some f)
  then show ?thesis by (intro idle) (simp add: sys_step_exited)
next
  case None
  show ?thesis
  proof (cases "pass_of k s")
    case pn: None
    then show ?thesis by (intro idle) (simp add: sys_step_def)
  next
    case (Some a)
    obtain c t where a: "a = (c, t)" by (cases a)
    show ?thesis
    proof (cases "pass_outcome C enc fl (start_t s) e c t (shared s)")
      case on: None
      with Some a show ?thesis by (intro idle) (simp add: sys_step_def)
    next
      case so: (Some b)
      obtain n out where b: "b = (n, out)" by (cases b)
      obtain c' ps' w' where "outcome_state out = (c', ps', w')" by (cases "outcome_state out")
      with None Some a so b show ?thesis by (intro pass) simp_all
    qed
  qed
qed

lemma wg_sys_step: "wg (sys_step C enc fl r ev s) = wg s"
proof (cases ev)
  case (SrcRead chunk err)
  then show ?thesis
    by (auto simp: sys_step_def split: option.splits prod.splits)
next
  case (Pass k e)
  show ?thesis
  proof (cases rule: sys_step_Pass_cases[of C enc fl r k e s])
    case idle
    with Pass show ?thesis by simp
  next
    case (pass c t n out c' ps' w')
    from sys_step_Pass_fields(4)[OF pass] Pass show ?thesis by simp
  qed
qed

lemma wg_run: "wg (run C enc fl r evs s) = wg s"
  by (induction evs arbitrary: s) (simp_all add: wg_sys_step)

lemma wg_Run_spawn: "wg (Run_spawn C r w) = (case rcvr_q r of None \<Rightarrow> 1 | Some q \<Rightarrow> 2)"
  by (simp add: Run_spawn_def time_Now_def split: option.splits)

lemma wait_group_never_zero: "\<not> wg_Wait_returns (run C enc fl r evs (Run_spawn C r w))"
  by (simp add: wg_Wait_returns_def wg_run wg_Run_spawn split: option.splits)

lemmas sys_defs =
  sys_step_def pass_of_def put_pass_def pass_outcome_def splitter_body_def pipe_Write_def
  Run_spawn_def io_Pipe_def toy_rcvr_def all_returned_def wg_Wait_returns_def loopers_def
  failing_encoder_def

text \<open>
  C2 fails on the code. One looper, which returns at its first pass on an interrupt:
  every looper that was spawned has returned, and the counter of the wait group is
  still 1, so \<^verbatim>\<open>wg.Wait()\<close> does not return. The looper has no \<^verbatim>\<open>wg.Done()\<close>; by
  \<open>wait_group_never_zero\<close> the counter is never zero, whatever happens.
\<close>

theorem wait_blocks_after_loopers_returned:
  "all_returned
     (run (toy_caps False) (toy_encoder False) (toy_flags False ''iq.bin'') (toy_rcvr False)
        [Pass P \<lparr>sigint = True, tLimit = False, pick_sigint = False\<rparr>]
        (Run_spawn (toy_caps False) (toy_rcvr False) (toy_world {}))) \<and>
   wg (run (toy_caps False) (toy_encoder False) (toy_flags False ''iq.bin'') (toy_rcvr False)
        [Pass P \<lparr>sigint = True, tLimit = False, pick_sigint = False\<rparr>]
        (Run_spawn (toy_caps False) (toy_rcvr False) (toy_world {}))) = 1 \<and>
   \<not> wg_Wait_returns
     (run (toy_caps False) (toy_encoder False) (toy_flags False ''iq.bin'') (toy_rcvr False)
        [Pass P \<lparr>sigint = True, tLimit = False, pick_sigint = False\<rparr>]
        (Run_spawn (toy_caps False) (toy_rcvr False) (toy_world {})))"
  by (simp add: sys_defs toy_defs)

lemma looper_body_closed:
  assumes "outcome_state (looper_body C enc fl start n e (c, ps, w)) = (c', ps', w')"
  shows "closed c' = closed c"
proof -
  obtain out where out: "looper_body C enc fl start n e (c, ps, w) = out" by simp
  have rf: "closed c2 = closed c" if "io_ReadFull c n = ROk b c2 \<or> io_ReadFull c n = RErr x c2"
    for b x c2
    using that by (auto simp: io_ReadFull_def split: if_splits)
  from out assms have st: "outcome_state out = (c', ps', w')" by simp
  from out show ?thesis
  proof (cases rule: looper_body_cases)
    case (read_err err inp')
    with st rf[of _ c' err] show ?thesis by simp
  next
    case (fatal block inp' f ps2 w2)
    with st rf[of block c'] show ?thesis by simp
  next
    case (processed block inp' ret ps2 w2)
    with st rf[of block c'] show ?thesis by (simp split: if_splits)
  qed (use st in simp_all)
qed

lemma closed_sys_step:
  "closed (out1 (sys_step C enc fl r ev s)) = closed (out1 s) \<and>
   closed (out2 (sys_step C enc fl r ev s)) = closed (out2 s)"
proof (cases ev)
  case (SrcRead chunk err)
  then show ?thesis
    by (auto simp: sys_step_def splitter_body_def pipe_Write_def split: option.splits prod.splits)
next
  case (Pass k e)
  show ?thesis
  proof (cases rule: sys_step_Pass_cases[of C enc fl r k e s])
    case idle
    with Pass show ?thesis by simp
  next
    case (pass c t n out c' ps' w')
    from pass(3) obtain e' ps where "out = looper_body C enc fl (start_t s) n e' (c, ps, shared s)"
      by (rule pass_outcome_body)
    with pass(4) have "closed c' = closed c" using looper_body_closed by metis
    with pass(2) show ?thesis unfolding Pass sys_step_Pass[OF pass]
      by (cases k) (auto simp: put_pass_def pass_of_def split: option.splits)
  qed
qed

lemma pipes_never_closed:
  "\<not> closed (out1 (run C enc fl r evs (Run_spawn C r w))) \<and>
   \<not> closed (out2 (run C enc fl r evs (Run_spawn C r w)))"
proof -
  have "closed (out1 (run C enc fl r evs s)) = closed (out1 s) \<and>
        closed (out2 (run C enc fl r evs s)) = closed (out2 s)" for s
    by (induction evs arbitrary: s) (simp_all add: closed_sys_step)
  then show ?thesis by (simp add: Run_spawn_def io_Pipe_def time_Now_def)
qed

text \<open>
  C3 fails on the code. The source gives one byte and then an error: the splitter
  returns, neither pipe is closed (by \<open>pipes_never_closed\<close> none ever is), and the
  looper, which waits in \<^verbatim>\<open>io.ReadFull\<close> for the second byte of its block, is still
  there after further passes, an interrupt included (by \<open>blocked_reader_stays\<close> it
  stays there in every run).
\<close>

theorem read_error_leaves_looper_blocked:
  "\<not> splitter_on
     (run (toy_caps False) (toy_encoder False) (toy_flags False ''iq.bin'') (toy_rcvr False)
        [SrcRead [7] None, Pass P quiet_env, SrcRead [] (Some ''EOF''), Pass P quiet_env,
         Pass P \<lparr>sigint = True, tLimit = False, pick_sigint = False\<rparr>]
        (Run_spawn (toy_caps False) (toy_rcvr False) (toy_world {}))) \<and>
   out1
     (run (toy_caps False) (toy_encoder False) (toy_flags False ''iq.bin'') (toy_rcvr False)
        [SrcRead [7] None, Pass P quiet_env, SrcRead [] (Some ''EOF''), Pass P quiet_env,
         Pass P \<lparr>sigint = True, tLimit = False, pick_sigint = False\<rparr>]
        (Run_spawn (toy_caps False) (toy_rcvr False) (toy_world {}))) =
     \<lparr>buf = [7], closed = False\<rparr> \<and>
   loop_p
     (run (toy_caps False) (toy_encoder False) (toy_flags False ''iq.bin'') (toy_rcvr False)
        [SrcRead [7] None, Pass P quiet_env, SrcRead [] (Some ''EOF''), Pass P quiet_env,
         Pass P \<lparr>sigint = True, tLimit = False, pick_sigint = False\<rparr>]
        (Run_spawn (toy_caps False) (toy_rcvr False) (toy_world {}))) = Reading 2 [] \<and>
   exited
     (run (toy_caps False) (toy_encoder False) (toy_flags False ''iq.bin'') (toy_rcvr False)
        [SrcRead [7] None, Pass P quiet_env, SrcRead [] (Some ''EOF''), Pass P quiet_env,
         Pass P \<lparr>sigint = True, tLimit = False, pick_sigint = False\<rparr>]
        (Run_spawn (toy_caps False) (toy_rcvr False) (toy_world {}))) = None"
  by (simp add: sys_defs toy_defs)

lemma blocked_reader_stays:
  assumes "\<not> splitter_on s" "loop_p s = Reading n ps" "length (buf (out1 s)) < n"
    "\<not> closed (out1 s)"
  shows "loop_p (run C enc fl r evs s) = Reading n ps \<and>
         out1 (run C enc fl r evs s) = out1 s"
  using assms
proof (induction evs arbitrary: s)
  case Nil
  then show ?case by simp
next
  case (Cons ev evs)
  have "\<not> splitter_on (sys_step C enc fl r ev s) \<and> loop_p (sys_step C enc fl r ev s) = Reading n ps \<and>
        out1 (sys_step C enc fl r ev s) = out1 s"
  proof (cases "exited s")
    case (Some f)
    with Cons.prems show ?thesis by (simp add: sys_step_exited)
  next
    case None
    show ?thesis
    proof (cases ev)
      case (SrcRead chunk err)
      with Cons.prems None show ?thesis by (simp add: sys_step_def)
    next
      case (Pass k e)
      show ?thesis
      proof (cases k)
        case P
        have "io_ReadFull (out1 s) n = RBlocked"
          using Cons.prems(3,4) by (simp add: io_ReadFull_def)
        with Cons.prems None Pass P show ?thesis
          by (simp add: sys_step_def pass_of_def pass_outcome_def default_case_def put_pass_def)
      next
        case Q
        with Cons.prems None Pass show ?thesis
          by (auto simp add: sys_step_def pass_of_def put_pass_def split: option.splits prod.splits)
      qed
    qed
  qed
  with Cons.IH[of "sys_step C enc fl r ev s"] Cons.prems(3,4) show ?case by simp
qed






section \<open>Fatal errors\<close>






section \<open>Single mode\<close>









section \<open>The offsets of a run\<close>








end
